theory Spec2Isabelle
  imports Complex_Main "HOL-Library.Sublist"
begin

section \<open>Python string operations used by the harness\<close>

text \<open>
  A text is the list of its code points; the model covers texts whose code points are
  below 256, one \<^typ>\<open>char\<close> each. The operations follow \<^verbatim>\<open>str\<close> of Python 3.
\<close>

text \<open>\<^verbatim>\<open>c.isspace()\<close> on the code points below 256.\<close>

definition isspace :: "char \<Rightarrow> bool" where
  "isspace c =
     (c \<in> {CHR 0x09, CHR 0x0A, CHR 0x0B, CHR 0x0C, CHR 0x0D, CHR 0x1C, CHR 0x1D, CHR 0x1E,
            CHR 0x1F, CHR 0x20, CHR 0x85, CHR 0xA0})"

text \<open>\<^verbatim>\<open>s.strip()\<close>: leading and trailing whitespace removed.\<close>

definition py_strip :: "string \<Rightarrow> string" where
  "py_strip s = rev (dropWhile isspace (rev (dropWhile isspace s)))"

text \<open>\<^verbatim>\<open>sub in s\<close> and \<^verbatim>\<open>s.startswith(p)\<close>.\<close>

definition str_contains :: "string \<Rightarrow> string \<Rightarrow> bool" where
  "str_contains s sub = sublist sub s"

definition startswith :: "string \<Rightarrow> string \<Rightarrow> bool" where
  "startswith s p = prefix p s"

text \<open>
  \<^verbatim>\<open>s.find(sub, start)\<close>: the lowest index not below \<open>start\<close> at which \<open>sub\<close>
  occurs, and \<open>-1\<close> when there is none. \<open>find_at sub cs i\<close> searches the rest \<open>cs\<close>
  of the text, which begins at index \<open>i\<close>.
\<close>

fun find_at :: "string \<Rightarrow> string \<Rightarrow> nat \<Rightarrow> nat option" where
  "find_at sub [] i = (if sub = [] then Some i else None)"
| "find_at sub (c # cs) i = (if prefix sub (c # cs) then Some i else find_at sub cs (Suc i))"

text \<open>A negative index counts from the end of the text, as in every Python slice.\<close>

definition clamp_index :: "string \<Rightarrow> int \<Rightarrow> nat" where
  "clamp_index s i =
     (if i < 0 then nat (max 0 (i + int (length s))) else min (nat i) (length s))"

definition py_find :: "string \<Rightarrow> string \<Rightarrow> int \<Rightarrow> int" where
  "py_find s sub start =
     (if int (length s) < start then - 1
      else case find_at sub (drop (clamp_index s start) s) (clamp_index s start) of
             None \<Rightarrow> - 1
           | Some i \<Rightarrow> int i)"

text \<open>\<^verbatim>\<open>s[a:b]\<close> and \<^verbatim>\<open>s[a:]\<close>.\<close>

definition slice :: "string \<Rightarrow> int \<Rightarrow> int \<Rightarrow> string" where
  "slice s a b = drop (clamp_index s a) (take (clamp_index s b) s)"

definition slice_from :: "string \<Rightarrow> int \<Rightarrow> string" where
  "slice_from s a = drop (clamp_index s a) s"

text \<open>\<^verbatim>\<open>s.split('\n')\<close> and \<^verbatim>\<open>'\n'.join(lines)\<close>.\<close>

fun split_nl :: "string \<Rightarrow> string list" where
  "split_nl [] = [[]]"
| "split_nl (c # cs) =
     (if c = CHR 0x0A then [] # split_nl cs
      else (case split_nl cs of [] \<Rightarrow> [[c]] | l # ls \<Rightarrow> (c # l) # ls))"

fun join_nl :: "string list \<Rightarrow> string" where
  "join_nl [] = []"
| "join_nl [l] = l"
| "join_nl (l # m # ls) = l @ CHR 0x0A # join_nl (m # ls)"

section \<open>The response normalizer\<close>

definition fence :: string where
  "fence = ''```''"

definition fence_python :: string where
  "fence_python = ''```python''"

text \<open>
  \<^verbatim>\<open>clean_llm_response\<close> of \<^verbatim>\<open>run_coverage_tests.py\<close> (the same text stands in
  the problem folders' test runners). Its first half removes a Markdown code fence.
\<close>

definition strip_markdown :: "string \<Rightarrow> string" where
  "strip_markdown code =
     (if str_contains code fence_python then
        (let start = py_find code fence_python 0 + 9;
             endi = py_find code fence start
         in if endi \<noteq> - 1 then py_strip (slice code start endi)
            else py_strip (slice_from code start))
      else if str_contains code fence then
        (let start = py_find code fence 0 + 3;
             endi = py_find code fence start
         in if endi \<noteq> - 1 then py_strip (slice code start endi)
            else py_strip (slice_from code start))
      else code)"

text \<open>Its second half indents the body under a leading \<^verbatim>\<open>def\<close> line.\<close>

definition fix_line :: "string \<Rightarrow> string" where
  "fix_line line =
     (if py_strip line \<noteq> [] then
        (if \<not> startswith line ''    '' \<and> \<not> startswith line [CHR 0x09]
         then ''    '' @ py_strip line
         else line)
      else line)"

definition fix_indentation :: "string \<Rightarrow> string" where
  "fix_indentation code =
     (let lines = split_nl code
      in if lines \<noteq> [] \<and> startswith (py_strip (hd lines)) ''def ''
         then join_nl (hd lines # map fix_line (tl lines))
         else code)"

definition clean_llm_response :: "string \<Rightarrow> string" where
  "clean_llm_response code = fix_indentation (strip_markdown code)"

text \<open>
  \<^verbatim>\<open>LLMEvaluator.extract_code\<close> of \<^verbatim>\<open>evaluate_humaneval.py\<close>. The local variable
  \<^verbatim>\<open>lower_llm_response\<close> is assigned in the first branch only; a local that was never
  assigned is \<open>None\<close> here, and reading it raises \<^verbatim>\<open>UnboundLocalError\<close>, a
  \<^verbatim>\<open>NameError\<close>.
\<close>

datatype py_error = NameError | ZeroDivisionError | TimeoutExpired

definition read_local :: "'a option \<Rightarrow> py_error + 'a" where
  "read_local v = (case v of None \<Rightarrow> Inl NameError | Some x \<Rightarrow> Inr x)"

text \<open>\<^verbatim>\<open>s.lower()\<close> on the code points below 256.\<close>

definition lower_char :: "char \<Rightarrow> char" where
  "lower_char c =
     (let n = (of_char c :: nat)
      in if (65 \<le> n \<and> n \<le> 90) \<or> (192 \<le> n \<and> n \<le> 222 \<and> n \<noteq> 215)
         then char_of (n + 32) else c)"

definition py_lower :: "string \<Rightarrow> string" where
  "py_lower s = map lower_char s"

definition extract_code :: "string \<Rightarrow> py_error + string" where
  "extract_code llm_response =
     (if str_contains llm_response fence_python then
        (let lower_llm_response = py_lower llm_response;
             start = py_find lower_llm_response fence_python 0 + int (length fence_python);
             endi = py_find lower_llm_response fence start
         in if endi \<noteq> - 1 then Inr (py_strip (slice llm_response start endi))
            else Inr (py_strip (slice_from llm_response start)))
      else
        (let lower_llm_response = (None :: string option)
         in case read_local lower_llm_response of
              Inl e \<Rightarrow> Inl e
            | Inr low \<Rightarrow>
                if str_contains low fence then
                  (let start = py_find low fence 0 + 3;
                       endi = py_find low fence start
                   in if endi \<noteq> - 1 then Inr (py_strip (slice llm_response start endi))
                      else Inr (py_strip (slice_from llm_response start)))
                else Inr (py_strip llm_response)))"

section \<open>Convention detection and the wrapper\<close>

text \<open>
  \<^verbatim>\<open>_detect_function_based_solution\<close>: the loop over the lines, with its two flags.
  The result of \<open>scan_lines\<close> is \<^verbatim>\<open>has_execution_code\<close>; the \<^verbatim>\<open>break\<close> is the
  branch that returns \<open>True\<close> without looking at the remaining lines.
\<close>

fun scan_lines :: "bool \<Rightarrow> bool \<Rightarrow> string list \<Rightarrow> bool" where
  "scan_lines in_function in_class [] = False"
| "scan_lines in_function in_class (line # rest) =
     (let stripped = py_strip line
      in if stripped = [] \<or> startswith stripped ''#'' then scan_lines in_function in_class rest
         else if startswith stripped ''def '' then scan_lines True in_class rest
         else if startswith stripped ''class '' then scan_lines in_function True rest
         else if (in_function \<or> in_class) \<and> \<not> (line \<noteq> [] \<and> \<not> isspace (hd line))
           then scan_lines in_function in_class rest
         else if \<not> startswith stripped ''import '' \<and> \<not> startswith stripped ''from '' \<and>
                 \<not> startswith stripped ''def '' \<and> \<not> startswith stripped ''class ''
           then True
         else scan_lines False False rest)"

definition detect_function_based_solution :: "string \<Rightarrow> bool" where
  "detect_function_based_solution code =
     (let lines = split_nl (py_strip code);
          has_execution_code = scan_lines False False lines
      in \<not> has_execution_code)"

text \<open>
  \<^verbatim>\<open>_extract_main_function_name\<close>: the name on the first line that starts with
  \<^verbatim>\<open>def\<close>; \<open>None\<close> when there is no such line.
\<close>

fun first_def_name :: "string list \<Rightarrow> string option" where
  "first_def_name [] = None"
| "first_def_name (line # rest) =
     (let stripped = py_strip line
      in if startswith stripped ''def ''
         then Some (py_strip (takeWhile (\<lambda>c. c \<noteq> CHR ''('') (drop 4 stripped)))
         else first_def_name rest)"

definition extract_main_function_name :: "string \<Rightarrow> string option" where
  "extract_main_function_name code = first_def_name (split_nl (py_strip code))"



subsection \<open>What the scan looks at\<close>

text \<open>
  The kinds of line the loop tells apart. A significant line is neither blank nor a
  comment; a header line starts a function or a class; a statement line is a significant
  line that is not a header.
\<close>

definition significant :: "string \<Rightarrow> bool" where
  "significant line = (py_strip line \<noteq> [] \<and> \<not> startswith (py_strip line) ''#'')"

definition header_line :: "string \<Rightarrow> bool" where
  "header_line line =
     (significant line \<and>
      (startswith (py_strip line) ''def '' \<or> startswith (py_strip line) ''class ''))"

definition import_line :: "string \<Rightarrow> bool" where
  "import_line line =
     (startswith (py_strip line) ''import '' \<or> startswith (py_strip line) ''from '')"

definition unindented :: "string \<Rightarrow> bool" where
  "unindented line = (line \<noteq> [] \<and> \<not> isspace (hd line))"

definition statement_line :: "string \<Rightarrow> bool" where
  "statement_line line = (significant line \<and> \<not> header_line line)"

text \<open>
  After the lines \<open>pre\<close> the scan is inside a definition when \<open>pre\<close> has a header
  line after which no statement line is unindented.
\<close>

definition inside :: "string list \<Rightarrow> bool" where
  "inside pre =
     (\<exists>a h b. pre = a @ h # b \<and> header_line h \<and>
        (\<forall>m \<in> set b. statement_line m \<longrightarrow> \<not> unindented m))"

text \<open>
  The same from a given state of the flags, and the lines at which the scan stops: a
  statement line that is not an import and is reached while the scan is outside every
  definition, or is unindented.
\<close>

definition inside_from :: "bool \<Rightarrow> string list \<Rightarrow> bool" where
  "inside_from b pre =
     (inside pre \<or> (b \<and> (\<forall>m \<in> set pre. statement_line m \<longrightarrow> \<not> unindented m)))"

definition flagged :: "bool \<Rightarrow> string list \<Rightarrow> bool" where
  "flagged b ls =
     (\<exists>pre l post. ls = pre @ l # post \<and> statement_line l \<and> \<not> import_line l \<and>
        (unindented l \<or> \<not> inside_from b pre))"


section \<open>Coverage aggregation and the verdict\<close>

text \<open>
  The values the harness passes around: Python integers, floats (as the real numbers
  they denote) and strings.
\<close>

datatype pyval = PyInt int | PyFloat real | PyStr string

text \<open>\<^verbatim>\<open>isinstance(v, (int, float))\<close>, with the number when it holds.\<close>

fun num_of :: "pyval \<Rightarrow> real option" where
  "num_of (PyInt i) = Some (real_of_int i)"
| "num_of (PyFloat r) = Some r"
| "num_of (PyStr s) = None"

text \<open>\<^verbatim>\<open>a / b\<close> on integers raises on a zero divisor.\<close>

definition truediv :: "int \<Rightarrow> int \<Rightarrow> py_error + real" where
  "truediv a b = (if b = 0 then Inl ZeroDivisionError else Inr (real_of_int a / real_of_int b))"

text \<open>
  The branch percentage, as both \<^verbatim>\<open>test_humaneval_problem\<close> and
  \<^verbatim>\<open>test_apps_problem\<close> compute it:
  \<^verbatim>\<open>(covered_branches / num_branches * 100) if num_branches > 0 else 100\<close>.
\<close>

definition branch_coverage :: "int \<Rightarrow> int \<Rightarrow> py_error + pyval" where
  "branch_coverage covered_branches num_branches =
     (if num_branches > 0 then
        (case truediv covered_branches num_branches of
           Inl e \<Rightarrow> Inl e
         | Inr q \<Rightarrow> Inr (PyFloat (q * 100)))
      else Inr (PyInt 100))"

text \<open>\<^verbatim>\<open>CoverageAnalyzer.interpret_coverage\<close>.\<close>

definition interpret_coverage :: "real \<Rightarrow> pyval \<Rightarrow> int \<Rightarrow> bool \<Rightarrow> string" where
  "interpret_coverage line_cov branch_cov num_branches tests_passed =
     (if \<not> tests_passed then ''Tests failed - coverage may be incomplete''
      else if line_cov = 100 \<and> (num_of branch_cov = Some 100 \<or> num_branches = 0)
        then ''Perfect coverage - all code paths tested''
      else if line_cov \<ge> 90 then
        (if (case num_of branch_cov of Some b \<Rightarrow> b < 80 | None \<Rightarrow> False)
         then ''High line coverage but low branch coverage - missing edge cases''
         else ''Excellent coverage'')
      else if line_cov \<ge> 70 then
        (if (case num_of branch_cov of Some b \<Rightarrow> b < 60 | None \<Rightarrow> False)
         then ''Good line coverage but poor branch coverage - untested conditionals''
         else ''Good coverage with room for improvement'')
      else if line_cov \<ge> 50 then ''Moderate coverage - significant untested code paths''
      else ''Low coverage - many code paths untested'')"

text \<open>
  The \<^verbatim>\<open>summary\<close> object of \<^verbatim>\<open>solution.py\<close> in the coverage report; a key that
  is missing (or a missing \<^verbatim>\<open>solution.py\<close> entry) is \<open>None\<close>, and every read is a
  \<^verbatim>\<open>.get(key, 0)\<close>.
\<close>

record summary =
  percent_covered :: "real option"
  num_statements :: "int option"
  covered_lines :: "int option"
  missing_lines :: "int option"
  num_branches :: "int option"
  covered_branches :: "int option"

definition get_or :: "'a option \<Rightarrow> 'a \<Rightarrow> 'a" where
  "get_or v d = (case v of None \<Rightarrow> d | Some x \<Rightarrow> x)"

text \<open>
  \<^verbatim>\<open>round(x, 1)\<close>: to one decimal, ties to even, on the real number the float denotes.
\<close>

definition round1 :: "real \<Rightarrow> real" where
  "round1 x =
     (let f = \<lfloor>x * 10\<rfloor>; d = x * 10 - of_int f;
          r = (if d < 1 / 2 then f else if d > 1 / 2 then f + 1
               else if even f then f else f + 1)
      in of_int r / 10)"

text \<open>
  The result dictionary of \<^verbatim>\<open>test_apps_problem\<close> and of
  \<^verbatim>\<open>test_humaneval_problem\<close>, from what the run left behind: the return code of the
  test process and the coverage report, \<open>None\<close> when \<^verbatim>\<open>coverage.json\<close> does not exist.
  The strings \<open>problem\<close>, \<open>kind\<close> and \<open>test_status\<close> are the formatted
  \<^verbatim>\<open>problem\<close>, \<^verbatim>\<open>type\<close> and \<^verbatim>\<open>tests_passed\<close> entries; \<open>absent_status\<close> is
  the \<^verbatim>\<open>tests_passed\<close> entry of the branch without a report (the same pass count for
  APPS, the constant \<^verbatim>\<open>'0/0 (Error)'\<close> for HumanEval). The two rounded entries are
  those of the exact quotient; the float arithmetic of the code can differ from them in
  the last digit.
\<close>

type_synonym pydict = "(string \<times> pyval) list"

definition coverage_result ::
  "string \<Rightarrow> string \<Rightarrow> string \<Rightarrow> string \<Rightarrow> int \<Rightarrow> summary option \<Rightarrow> py_error + pydict" where
  "coverage_result problem kind test_status absent_status returncode coverage_file =
     (case coverage_file of
        Some solution_coverage \<Rightarrow>
          (let line_coverage = get_or (percent_covered solution_coverage) 0;
               n_statements = get_or (num_statements solution_coverage) 0;
               n_covered = get_or (covered_lines solution_coverage) 0;
               n_missing = get_or (missing_lines solution_coverage) 0;
               n_branches = get_or (num_branches solution_coverage) 0;
               n_covered_branches = get_or (covered_branches solution_coverage) 0
           in case branch_coverage n_covered_branches n_branches of
                Inl e \<Rightarrow> Inl e
              | Inr branch_cov \<Rightarrow>
                  (let tests_passed = (returncode = 0);
                       interpretation =
                         interpret_coverage line_coverage branch_cov n_branches tests_passed
                   in Inr
                     [(''problem'', PyStr problem),
                      (''type'', PyStr kind),
                      (''tests_passed'', PyStr test_status),
                      (''line_coverage'', PyFloat (round1 line_coverage)),
                      (''branch_coverage'',
                         if n_branches > 0
                         then PyFloat (round1 (get_or (num_of branch_cov) 0))
                         else PyStr ''N/A''),
                      (''num_statements'', PyInt n_statements),
                      (''covered_lines'', PyInt n_covered),
                      (''missing_lines'', PyInt n_missing),
                      (''num_branches'', PyInt n_branches),
                      (''covered_branches'', PyInt n_covered_branches),
                      (''interpretation'', PyStr interpretation)]))
      | None \<Rightarrow>
          Inr
            [(''problem'', PyStr problem),
             (''type'', PyStr kind),
             (''tests_passed'', PyStr absent_status),
             (''line_coverage'', PyInt 0),
             (''branch_coverage'', PyStr ''N/A''),
             (''interpretation'', PyStr ''Coverage data not generated'')])"

definition test_apps_result ::
  "string \<Rightarrow> string \<Rightarrow> string \<Rightarrow> int \<Rightarrow> summary option \<Rightarrow> py_error + pydict" where
  "test_apps_result problem kind test_status returncode coverage_file =
     coverage_result problem kind test_status test_status returncode coverage_file"

definition test_humaneval_result ::
  "string \<Rightarrow> string \<Rightarrow> string \<Rightarrow> int \<Rightarrow> summary option \<Rightarrow> py_error + pydict" where
  "test_humaneval_result problem kind test_status returncode coverage_file =
     coverage_result problem kind test_status ''0/0 (Error)'' returncode coverage_file"

subsection \<open>The decision table of the specification\<close>

text \<open>
  The verdict labels and the table of the specification, row by row, first match wins.
  Its branch input is a percentage or the constant \<open>Full\<close>, which the classifier treats as
  100: \<open>branch_value\<close> is that reading, and row 2 asks for it.
\<close>

datatype verdict =
  FailedIncomplete | PerfectCoverage | HighLineLowBranch | Excellent
  | GoodLineLowBranch | Good | Moderate | Low

datatype branch_cov = Pct real | Full

fun branch_value :: "branch_cov \<Rightarrow> real" where
  "branch_value (Pct p) = p"
| "branch_value Full = 100"

text \<open>
  What the harness hands to \<^verbatim>\<open>interpret_coverage\<close> for a branch input of the table:
  the percentage as a float, and the integer 100 where there are no branches.
\<close>

fun branch_arg :: "branch_cov \<Rightarrow> pyval" where
  "branch_arg (Pct p) = PyFloat p"
| "branch_arg Full = PyInt 100"

definition spec_classify :: "bool \<Rightarrow> real \<Rightarrow> branch_cov \<Rightarrow> bool \<Rightarrow> verdict" where
  "spec_classify testsPassed lineCov branchCov hasBranches =
     (if \<not> testsPassed then FailedIncomplete
      else if lineCov = 100 \<and> (branch_value branchCov = 100 \<or> \<not> hasBranches) then PerfectCoverage
      else if lineCov \<ge> 90 then
        (if hasBranches \<and> branch_value branchCov < 80 then HighLineLowBranch else Excellent)
      else if lineCov \<ge> 70 then
        (if hasBranches \<and> branch_value branchCov < 60 then GoodLineLowBranch else Good)
      else if lineCov \<ge> 50 then Moderate
      else Low)"

text \<open>The message of the code that stands for each label.\<close>

fun label :: "verdict \<Rightarrow> string" where
  "label FailedIncomplete = ''Tests failed - coverage may be incomplete''"
| "label PerfectCoverage = ''Perfect coverage - all code paths tested''"
| "label HighLineLowBranch = ''High line coverage but low branch coverage - missing edge cases''"
| "label Excellent = ''Excellent coverage''"
| "label GoodLineLowBranch = ''Good line coverage but poor branch coverage - untested conditionals''"
| "label Good = ''Good coverage with room for improvement''"
| "label Moderate = ''Moderate coverage - significant untested code paths''"
| "label Low = ''Low coverage - many code paths untested''"

section \<open>Running the tests in a child process\<close>

text \<open>
  What the child process does when left alone: it exits after some seconds with a return
  code and its two output streams, or it never exits. \<^verbatim>\<open>subprocess.run\<close> waits for
  the child; with a \<^verbatim>\<open>timeout\<close> it kills a child that is still running when the
  time is up and raises \<^verbatim>\<open>TimeoutExpired\<close>. A call that never returns is \<open>None\<close>.
\<close>

datatype process = Exits nat int string string | Hangs

datatype completed = CompletedProcess (returncode: int) (stdout: string) (stderr: string)

definition subprocess_run :: "nat option \<Rightarrow> process \<Rightarrow> (py_error + completed) option" where
  "subprocess_run timeout p =
     (case p of
        Exits seconds rc out err \<Rightarrow>
          (case timeout of
             Some limit \<Rightarrow>
               if limit < seconds then Some (Inl TimeoutExpired)
               else Some (Inr (CompletedProcess rc out err))
           | None \<Rightarrow> Some (Inr (CompletedProcess rc out err)))
      | Hangs \<Rightarrow>
          (case timeout of
             Some limit \<Rightarrow> Some (Inl TimeoutExpired)
           | None \<Rightarrow> None))"

text \<open>
  \<^verbatim>\<open>LLMEvaluator.run_tests\<close>: the test runner of a problem folder, with
  \<^verbatim>\<open>timeout=30\<close>. The result is the dictionary it returns; for an exception other
  than the timeout its error text is \<^verbatim>\<open>'Test execution failed: '\<close> and the message of
  the exception, which the model leaves out.
\<close>

datatype test_results =
  Results (success: bool) (out: string) (err: string) (return_code: int)
  | Error string

definition run_tests :: "bool \<Rightarrow> process \<Rightarrow> test_results option" where
  "run_tests test_file_exists p =
     (if \<not> test_file_exists then Some (Error ''Test file not found'')
      else case subprocess_run (Some 30) p of
             None \<Rightarrow> None
           | Some (Inl e) \<Rightarrow>
               if e = TimeoutExpired then Some (Error ''Test execution timed out'')
               else Some (Error ''Test execution failed: '')
           | Some (Inr result) \<Rightarrow>
               Some (Results (returncode result = 0) (stdout result) (stderr result)
                       (returncode result)))"

text \<open>
  \<^verbatim>\<open>test_apps_problem\<close> and \<^verbatim>\<open>test_humaneval_problem\<close> from the point where they
  start \<^verbatim>\<open>pytest\<close>: \<^verbatim>\<open>subprocess.run\<close> without a \<^verbatim>\<open>timeout\<close>, then the result
  dictionary. \<open>coverage_file\<close> is the report the child leaves behind.
\<close>

definition test_apps_problem ::
  "string \<Rightarrow> string \<Rightarrow> string \<Rightarrow> process \<Rightarrow> summary option \<Rightarrow> (py_error + pydict) option" where
  "test_apps_problem problem kind test_status p coverage_file =
     (case subprocess_run None p of
        None \<Rightarrow> None
      | Some (Inl e) \<Rightarrow> Some (Inl e)
      | Some (Inr result) \<Rightarrow>
          Some (test_apps_result problem kind test_status (returncode result) coverage_file))"

definition test_humaneval_problem ::
  "string \<Rightarrow> string \<Rightarrow> string \<Rightarrow> process \<Rightarrow> summary option \<Rightarrow> (py_error + pydict) option" where
  "test_humaneval_problem problem kind test_status p coverage_file =
     (case subprocess_run None p of
        None \<Rightarrow> None
      | Some (Inl e) \<Rightarrow> Some (Inl e)
      | Some (Inr result) \<Rightarrow>
          Some (test_humaneval_result problem kind test_status (returncode result) coverage_file))"

section \<open>The test cases of the program convention\<close>

text \<open>
  \<^verbatim>\<open>test_apps_problem\<close> writes one test function per pair of input and expected
  output, and one \<^verbatim>\<open>pytest\<close> process runs them in order. Each test function does
  \<^verbatim>\<open>import solution\<close>, \<^verbatim>\<open>importlib.reload(solution)\<close>, binds the standard streams
  to buffers, and then calls \<^verbatim>\<open>solution._run_solution()\<close> (function-based candidate)
  or executes the solution file in \<^verbatim>\<open>solution.__dict__\<close>.

  The state of the test process that a candidate can reach has two parts: the namespace
  of the module \<^verbatim>\<open>solution\<close> once it is loaded, a map from names to values, and the
  state outside that module (attributes of other modules, objects that outlive the
  module's names), a second map keyed by dotted name.
\<close>

type_synonym namespace = "string \<rightharpoonup> pyval"

record interpreter =
  loaded :: "namespace option"
  outside :: namespace

definition new_process :: interpreter where
  "new_process = \<lparr>loaded = None, outside = Map.empty\<rparr>"

text \<open>
  A candidate that raises nothing is given by what its code does to that state:
  \<open>module_code\<close> executes the top-level code of the solution file in a module
  namespace, reading the given input, and yields the namespace and the outside state
  afterwards and the text printed; \<open>run_solution\<close> is the call of the generated
  wrapper in the module's namespace.
\<close>

record candidate =
  module_code :: "namespace \<Rightarrow> namespace \<Rightarrow> string \<Rightarrow> namespace \<times> namespace \<times> string"
  run_solution :: "namespace \<Rightarrow> namespace \<Rightarrow> string \<Rightarrow> namespace \<times> namespace \<times> string"

text \<open>
  \<^verbatim>\<open>import solution\<close> executes the module in a new namespace the first time only.
  \<^verbatim>\<open>importlib.reload\<close> executes the module's code again in the namespace the module
  has: the dictionary is kept. Both run before the streams are rebound, on the standard
  input \<open>stdin0\<close> of the test process, and what they print is not captured.
\<close>

definition import_solution :: "candidate \<Rightarrow> string \<Rightarrow> interpreter \<Rightarrow> namespace \<times> namespace" where
  "import_solution c stdin0 st =
     (case loaded st of
        None \<Rightarrow>
          (let (ns, out, printed) = module_code c Map.empty (outside st) stdin0 in (ns, out))
      | Some ns \<Rightarrow> (ns, outside st))"

definition importlib_reload ::
  "candidate \<Rightarrow> string \<Rightarrow> namespace \<times> namespace \<Rightarrow> namespace \<times> namespace" where
  "importlib_reload c stdin0 st =
     (let (ns, out, printed) = module_code c (fst st) (snd st) stdin0 in (ns, out))"

text \<open>One generated test function: the process afterwards, and the captured output.\<close>

definition test_case ::
  "candidate \<Rightarrow> bool \<Rightarrow> string \<Rightarrow> string \<Rightarrow> interpreter \<Rightarrow> interpreter \<times> string" where
  "test_case c is_function_based stdin0 input_data st =
     (let st1 = import_solution c stdin0 st;
          st2 = importlib_reload c stdin0 st1;
          (ns, out, output) =
            (if is_function_based then run_solution c (fst st2) (snd st2) input_data
             else module_code c (fst st2) (snd st2) input_data)
      in (\<lparr>loaded = Some ns, outside = out\<rparr>, output))"

text \<open>The test functions in order, in the one process: the outputs they capture.\<close>

fun run_test_cases ::
  "candidate \<Rightarrow> bool \<Rightarrow> string \<Rightarrow> string list \<Rightarrow> interpreter \<Rightarrow> string list" where
  "run_test_cases c is_function_based stdin0 [] st = []"
| "run_test_cases c is_function_based stdin0 (input_data # inputs) st =
     (let (st', output) = test_case c is_function_based stdin0 input_data st
      in output # run_test_cases c is_function_based stdin0 inputs st')"

text \<open>
  What a test case would capture if it began from a fresh copy of the module: the module
  not loaded, as in a new process.
\<close>

definition fresh_output :: "candidate \<Rightarrow> bool \<Rightarrow> string \<Rightarrow> string \<Rightarrow> string" where
  "fresh_output c is_function_based stdin0 input_data =
     snd (test_case c is_function_based stdin0 input_data new_process)"

text \<open>
  Three function-based candidates. The first keeps its counter in a class that the
  module defines, so the module's code sets it to zero; the model holds the class by
  the value of its one attribute.
  \<^verbatim>\<open>
  class State:
      counter = 0
  def solve():
      State.counter += 1
      print("first" if State.counter == 1 else "again")
  \<close>
  The second creates its global on the first call:
  \<^verbatim>\<open>
  def solve():
      global seen
      try:
          seen
          print("again")
      except NameError:
          seen = True
          print("first")
  \<close>
  The third keeps its counter on another module:
  \<^verbatim>\<open>
  import sys
  def solve():
      sys.calls = getattr(sys, "calls", 0) + 1
      print("first" if sys.calls == 1 else "again")
  \<close>
\<close>

definition counter_source :: string where
  "counter_source =
     ''class State:\<newline>'' @
     ''    counter = 0\<newline>'' @
     ''def solve():\<newline>'' @
     ''    State.counter += 1\<newline>'' @
     ''    print(\"first\" if State.counter == 1 else \"again\")''"

definition counter_candidate :: candidate where
  "counter_candidate =
     \<lparr>module_code = (\<lambda>ns out i. (ns(''State'' \<mapsto> PyInt 0), out, [])),
      run_solution = (\<lambda>ns out i.
        (case ns ''State'' of
           Some (PyInt n) \<Rightarrow>
             (ns(''State'' \<mapsto> PyInt (n + 1)), out,
              if n + 1 = 1 then ''first\<newline>'' else ''again\<newline>'')
         | _ \<Rightarrow> (ns, out, [])))\<rparr>"

definition seen_source :: string where
  "seen_source =
     ''def solve():\<newline>'' @
     ''    global seen\<newline>'' @
     ''    try:\<newline>'' @
     ''        seen\<newline>'' @
     ''        print(\"again\")\<newline>'' @
     ''    except NameError:\<newline>'' @
     ''        seen = True\<newline>'' @
     ''        print(\"first\")''"

definition seen_candidate :: candidate where
  "seen_candidate =
     \<lparr>module_code = (\<lambda>ns out i. (ns, out, [])),
      run_solution = (\<lambda>ns out i.
        (case ns ''seen'' of
           Some v \<Rightarrow> (ns, out, ''again\<newline>'')
         | None \<Rightarrow> (ns(''seen'' \<mapsto> PyInt 1), out, ''first\<newline>'')))\<rparr>"

definition calls_source :: string where
  "calls_source =
     ''import sys\<newline>'' @
     ''def solve():\<newline>'' @
     ''    sys.calls = getattr(sys, \"calls\", 0) + 1\<newline>'' @
     ''    print(\"first\" if sys.calls == 1 else \"again\")''"

definition calls_candidate :: candidate where
  "calls_candidate =
     \<lparr>module_code = (\<lambda>ns out i. (ns(''sys'' \<mapsto> PyStr ''module sys''), out, [])),
      run_solution = (\<lambda>ns out i.
        (let n = (case out ''sys.calls'' of Some (PyInt k) \<Rightarrow> k | _ \<Rightarrow> 0) + 1
         in (ns, out(''sys.calls'' \<mapsto> PyInt n),
             if n = 1 then ''first\<newline>'' else ''again\<newline>'')))\<rparr>"

section \<open>Facts about the string operations\<close>

lemma sublist_py_strip: "sublist (py_strip s) s"
proof -
  have "sublist (rev (py_strip s)) (rev s)"
    unfolding py_strip_def rev_rev_ident
    by (metis sublist_dropWhile sublist_order.order_trans sublist_rev_right)
  then show ?thesis by simp
qed

lemma find_at_None: "find_at sub cs i = None \<longleftrightarrow> \<not> sublist sub cs"
  by (induction cs arbitrary: i) (auto simp: sublist_Cons_right)

lemma find_at_ge: "find_at sub cs i = Some j \<Longrightarrow> i \<le> j"
  by (induction cs arbitrary: i) (fastforce split: if_splits)+

lemma find_at_le: "find_at sub cs i = Some j \<Longrightarrow> j \<le> i + length cs"
  by (induction cs arbitrary: i) (fastforce split: if_splits)+

lemma find_at_first:
  "find_at sub cs i = Some j \<Longrightarrow> sub \<noteq> [] \<Longrightarrow> \<not> sublist sub (take (j - i) cs)"
proof (induction cs arbitrary: i)
  case Nil
  then show ?case by simp
next
  case (Cons c cs)
  show ?case
  proof (cases "prefix sub (c # cs)")
    case True
    with Cons.prems show ?thesis by simp
  next
    case False
    with Cons.prems have f: "find_at sub cs (Suc i) = Some j" by simp
    from find_at_ge [OF f] have e: "j - i = Suc (j - Suc i)" by simp
    have "\<not> prefix sub (c # take (j - Suc i) cs)"
    proof
      assume "prefix sub (c # take (j - Suc i) cs)"
      moreover have "prefix (c # take (j - Suc i) cs) (c # cs)"
        by (simp add: take_is_prefix)
      ultimately have "prefix sub (c # cs)" by (rule prefix_order.trans)
      with False show False by simp
    qed
    with Cons.IH [OF f Cons.prems(2)] e show ?thesis
      by (simp add: sublist_Cons_right)
  qed
qed

lemma find_at_append:
  "\<not> sublist sub (pre @ butlast sub) \<Longrightarrow> find_at sub (pre @ sub @ rest) i = Some (i + length pre)"
proof (induction pre arbitrary: i)
  case Nil
  have "prefix sub (sub @ rest)" by simp
  then show ?case by (cases "sub @ rest") (auto simp del: prefixI)
next
  case (Cons c pre)
  have np: "\<not> prefix sub (c # pre @ sub @ rest)"
  proof
    assume p: "prefix sub (c # pre @ sub @ rest)"
    have ne: "sub \<noteq> []" using Cons.prems by auto
    have "c # pre @ sub @ rest = ((c # pre) @ butlast sub) @ (last sub # rest)"
      using ne by simp
    moreover have "length sub \<le> length ((c # pre) @ butlast sub)" by simp
    ultimately have "prefix sub ((c # pre) @ butlast sub)"
      using p by (metis prefix_length_prefix prefixI)
    then show False using Cons.prems by (meson prefix_imp_sublist)
  qed
  have "\<not> sublist sub (pre @ butlast sub)"
    using Cons.prems by (simp add: sublist_Cons_right)
  from Cons.IH [OF this, of "Suc i"] np show ?case by simp
qed

lemma split_nl_ne [simp]: "split_nl s \<noteq> []"
  by (induction s) (auto split: list.splits)

lemma join_split [simp]: "join_nl (split_nl s) = s"
proof (induction s)
  case Nil
  then show ?case by simp
next
  case (Cons c s)
  then show ?case
    by (cases "split_nl s"; cases "tl (split_nl s)") (auto split: list.splits)
qed

lemma split_nl_no_nl: "l \<in> set (split_nl s) \<Longrightarrow> CHR 0x0A \<notin> set l"
proof (induction s arbitrary: l)
  case Nil
  then show ?case by simp
next
  case (Cons c s)
  then show ?case
    by (cases "split_nl s") (auto split: if_splits)
qed

lemma split_nl_line: "CHR 0x0A \<notin> set l \<Longrightarrow> split_nl l = [l]"
  by (induction l) auto

lemma split_nl_append:
  "CHR 0x0A \<notin> set l \<Longrightarrow> split_nl (l @ CHR 0x0A # s) = l # split_nl s"
  by (induction l) auto

lemma split_join:
  "ls \<noteq> [] \<Longrightarrow> \<forall>l\<in>set ls. CHR 0x0A \<notin> set l \<Longrightarrow> split_nl (join_nl ls) = ls"
proof (induction ls rule: join_nl.induct)
  case 1
  then show ?case by simp
next
  case (2 l)
  then show ?case by (simp add: split_nl_line)
next
  case (3 l m ls)
  then show ?case by (simp add: split_nl_append)
qed

subsection \<open>Searching and slicing\<close>

lemma py_find_0:
  "py_find s sub 0 = (case find_at sub s 0 of None \<Rightarrow> - 1 | Some i \<Rightarrow> int i)"
  by (simp add: py_find_def clamp_index_def)

lemma py_find_nat:
  "py_find s sub (int k) =
     (if length s < k then - 1
      else case find_at sub (drop k s) k of None \<Rightarrow> - 1 | Some i \<Rightarrow> int i)"
  by (simp add: py_find_def clamp_index_def min_def)

lemma slice_nat: "slice s (int a) (int b) = drop a (take b s)"
  by (auto simp add: slice_def clamp_index_def min_def)

lemma slice_from_nat: "slice_from s (int a) = drop a s"
  by (auto simp add: slice_from_def clamp_index_def min_def)

text \<open>The text between an index and the next occurrence found from it holds no occurrence.\<close>

lemma interior_free:
  assumes "sub \<noteq> []" and "py_find s sub (int k) = e" and "e \<noteq> - 1"
  shows "\<not> sublist sub (slice s (int k) e)"
proof -
  from assms(2,3) have le: "k \<le> length s"
    by (auto simp: py_find_nat split: if_splits)
  from assms(2,3) obtain j where j: "find_at sub (drop k s) k = Some j" and e: "e = int j"
    by (auto simp: py_find_nat split: if_splits option.splits)
  from find_at_first [OF j assms(1)] have "\<not> sublist sub (take (j - k) (drop k s))" .
  moreover have "slice s (int k) e = take (j - k) (drop k s)"
    unfolding e slice_nat by (simp add: drop_take)
  ultimately show ?thesis by simp
qed

lemma rest_free:
  assumes "sub \<noteq> []" and "py_find s sub (int k) = - 1"
  shows "\<not> sublist sub (slice_from s (int k))"
proof (cases "length s < k")
  case True
  then show ?thesis using assms(1) by (simp add: slice_from_nat)
next
  case False
  with assms(2) have "find_at sub (drop k s) k = None"
    by (auto simp: py_find_nat split: option.splits)
  then show ?thesis by (simp add: find_at_None slice_from_nat)
qed

lemma py_find_nonneg:
  "sublist sub s \<Longrightarrow> \<exists>p. py_find s sub 0 = int p"
  by (auto simp: py_find_0 find_at_None split: option.splits)

lemma fence_ne [simp]: "fence \<noteq> []" "fence_python \<noteq> []"
  by (simp_all add: fence_def fence_python_def)

lemma fence_in_python: "sublist fence fence_python"
  by (simp add: fence_def fence_python_def)

lemma strip_markdown_free: "\<not> sublist fence (strip_markdown code)"
proof -
  have free: "\<not> sublist fence (py_strip t)" if "\<not> sublist fence t" for t
    using that sublist_py_strip [of t] by (meson sublist_order.order_trans)
  have step: "\<not> sublist fence
      (let endi = py_find code fence i
       in if endi \<noteq> - 1 then py_strip (slice code i endi)
          else py_strip (slice_from code i))" if "0 \<le> i" for i
  proof -
    from that obtain k where k: "i = int k" by (metis nonneg_int_cases)
    show ?thesis
      unfolding k
      using interior_free [of fence code k] rest_free [of fence code k]
      by (auto simp: Let_def dest: free)
  qed
  show ?thesis
  proof (cases "str_contains code fence_python")
    case True
    then obtain p where p: "py_find code fence_python 0 = int p"
      using py_find_nonneg by (auto simp: str_contains_def)
    with True step [of "int p + 9"] show ?thesis
      by (simp add: strip_markdown_def Let_def)
  next
    case False
    show ?thesis
    proof (cases "str_contains code fence")
      case True
      then obtain p where p: "py_find code fence 0 = int p"
        using py_find_nonneg by (auto simp: str_contains_def)
      with True False step [of "int p + 3"] show ?thesis
        by (simp add: strip_markdown_def Let_def)
    next
      case False
      with \<open>\<not> str_contains code fence_python\<close> show ?thesis
        by (simp add: strip_markdown_def str_contains_def)
    qed
  qed
qed


lemma set_py_strip: "set (py_strip s) \<subseteq> set s"
  using set_mono_sublist [OF sublist_py_strip] .

lemma sublist_join_nl:
  assumes "sub \<noteq> []" and "CHR 0x0A \<notin> set sub"
  shows "sublist sub (join_nl ls) \<Longrightarrow> \<exists>l\<in>set ls. sublist sub l"
proof (induction ls rule: join_nl.induct)
  case 1
  with assms(1) show ?case by simp
next
  case (2 l)
  then show ?case by simp
next
  case (3 l m ls)
  let ?rest = "join_nl (m # ls)"
  from "3.prems" have "sublist sub (l @ CHR 0x0A # ?rest)" by simp
  then consider (a) "sublist sub l" | (b) "sublist sub (CHR 0x0A # ?rest)"
    | (c) xs1 xs2 where "sub = xs1 @ xs2" "suffix xs1 l" "prefix xs2 (CHR 0x0A # ?rest)"
    unfolding sublist_append by blast
  then show ?case
  proof cases
    case a
    then show ?thesis by simp
  next
    case b
    then have "prefix sub (CHR 0x0A # ?rest) \<or> sublist sub ?rest"
      by (simp add: sublist_Cons_right)
    moreover have "\<not> prefix sub (CHR 0x0A # ?rest)"
      using assms by (cases sub) auto
    ultimately show ?thesis using "3.IH" by auto
  next
    case c
    show ?thesis
    proof (cases xs2)
      case Nil
      with c have "suffix sub l" by simp
      then show ?thesis by auto
    next
      case (Cons x xs)
      with c(3) have "x = CHR 0x0A" by simp
      with c(1) Cons assms(2) show ?thesis by simp
    qed
  qed
qed

lemma sublist_line_join: "l \<in> set ls \<Longrightarrow> sublist l (join_nl ls)"
proof (induction ls rule: join_nl.induct)
  case 1
  then show ?case by simp
next
  case (2 l')
  then show ?case by simp
next
  case (3 l' m ls)
  show ?case
  proof (cases "l = l'")
    case True
    then show ?thesis by simp
  next
    case False
    with 3 have "sublist l (join_nl (m # ls))" by simp
    then have "sublist l (CHR 0x0A # join_nl (m # ls))"
      by (simp add: sublist_Cons_right)
    then show ?thesis
      by (simp add: sublist_append)
  qed
qed

lemma fix_line_fence: "sublist fence (fix_line l) \<Longrightarrow> sublist fence l"
proof (cases "fix_line l = l")
  case True
  assume "sublist fence (fix_line l)"
  with True show ?thesis by simp
next
  case False
  assume a: "sublist fence (fix_line l)"
  from False have "fix_line l = ''    '' @ py_strip l"
    by (auto simp: fix_line_def split: if_splits)
  with a have "sublist fence (py_strip l)"
    by (simp add: sublist_Cons_right fence_def)
  then show ?thesis
    using sublist_py_strip [of l] by (meson sublist_order.order_trans)
qed

lemma fix_indentation_free:
  assumes "\<not> sublist fence code"
  shows "\<not> sublist fence (fix_indentation code)"
proof
  assume a: "sublist fence (fix_indentation code)"
  show False
  proof (cases "fix_indentation code = code")
    case True
    with a assms show ?thesis by simp
  next
    case False
    then have r: "fix_indentation code =
        join_nl (hd (split_nl code) # map fix_line (tl (split_nl code)))"
      by (auto simp: fix_indentation_def Let_def split: if_splits)
    have "CHR 0x0A \<notin> set fence" by (simp add: fence_def)
    from sublist_join_nl [OF fence_ne(1) this a [unfolded r]]
    obtain l where l: "l \<in> set (hd (split_nl code) # map fix_line (tl (split_nl code)))"
      and s: "sublist fence l" by blast
    have "\<exists>l'\<in>set (split_nl code). sublist fence l'"
    proof (cases "l = hd (split_nl code)")
      case True
      with s show ?thesis by (metis hd_in_set split_nl_ne)
    next
      case False
      with l obtain l' where "l' \<in> set (tl (split_nl code))" "l = fix_line l'" by auto
      with s show ?thesis
        by (metis fix_line_fence list.set_sel(2) split_nl_ne)
    qed
    then obtain l' where "l' \<in> set (split_nl code)" "sublist fence l'" by blast
    then have "sublist fence (join_nl (split_nl code))"
      by (meson sublist_line_join sublist_order.order_trans)
    with assms show False by simp
  qed
qed

lemma strip_markdown_id: "\<not> sublist fence code \<Longrightarrow> strip_markdown code = code"
proof -
  assume a: "\<not> sublist fence code"
  then have "\<not> sublist fence_python code"
    using fence_in_python by (meson sublist_order.order_trans)
  with a show ?thesis by (simp add: strip_markdown_def str_contains_def)
qed

lemma fix_line_indented: "startswith l ''    '' \<Longrightarrow> fix_line l = l"
  by (simp add: fix_line_def)

lemma fix_line_idem: "fix_line (fix_line l) = fix_line l"
proof (cases "fix_line l = l")
  case True
  then show ?thesis by simp
next
  case False
  then have "fix_line l = ''    '' @ py_strip l"
    by (auto simp: fix_line_def split: if_splits)
  then show ?thesis
    by (simp add: fix_line_indented startswith_def)
qed

lemma fix_line_no_nl: "CHR 0x0A \<notin> set l \<Longrightarrow> CHR 0x0A \<notin> set (fix_line l)"
  using set_py_strip [of l] by (auto simp: fix_line_def)

lemma split_fix_indentation:
  assumes "startswith (py_strip (hd (split_nl code))) ''def ''"
  shows "split_nl (fix_indentation code) =
           hd (split_nl code) # map fix_line (tl (split_nl code))"
proof -
  have h: "CHR 0x0A \<notin> set (hd (split_nl code))"
    by (rule split_nl_no_nl [of _ code]) simp
  have t: "CHR 0x0A \<notin> set (fix_line l)" if "l \<in> set (tl (split_nl code))" for l
  proof (rule fix_line_no_nl, rule split_nl_no_nl [of _ code])
    show "l \<in> set (split_nl code)"
      using that by (simp add: list.set_sel(2))
  qed
  have "\<forall>l\<in>set (hd (split_nl code) # map fix_line (tl (split_nl code))). CHR 0x0A \<notin> set l"
    using h t by auto
  then have "split_nl (join_nl (hd (split_nl code) # map fix_line (tl (split_nl code)))) =
      hd (split_nl code) # map fix_line (tl (split_nl code))"
    by (intro split_join) simp_all
  with assms show ?thesis by (simp add: fix_indentation_def Let_def)
qed

lemma fix_indentation_idem: "fix_indentation (fix_indentation code) = fix_indentation code"
proof (cases "startswith (py_strip (hd (split_nl code))) ''def ''")
  case True
  have "fix_indentation (fix_indentation code) =
      join_nl (hd (split_nl code) # map fix_line (map fix_line (tl (split_nl code))))"
    unfolding fix_indentation_def [of "fix_indentation code"] split_fix_indentation [OF True]
    using True by (simp add: Let_def)
  also have "\<dots> = fix_indentation code"
    using True by (simp add: fix_indentation_def Let_def fix_line_idem comp_def)
  finally show ?thesis .
next
  case False
  then show ?thesis by (simp add: fix_indentation_def Let_def)
qed

lemma clean_idem: "clean_llm_response (clean_llm_response x) = clean_llm_response x"
proof -
  have "\<not> sublist fence (clean_llm_response x)"
    unfolding clean_llm_response_def
    by (rule fix_indentation_free) (rule strip_markdown_free)
  then have "strip_markdown (clean_llm_response x) = clean_llm_response x"
    by (rule strip_markdown_id)
  then show ?thesis
    by (simp add: clean_llm_response_def fix_indentation_idem)
qed

lemma tag_overlap:
  assumes "\<not> sublist fence_python pre"
  shows "\<not> sublist fence_python (pre @ butlast fence_python)"
proof
  assume "sublist fence_python (pre @ butlast fence_python)"
  then consider (a) "sublist fence_python pre" | (b) "sublist fence_python (butlast fence_python)"
    | (c) xs1 xs2 where "fence_python = xs1 @ xs2" "suffix xs1 pre"
        "prefix xs2 (butlast fence_python)"
    unfolding sublist_append by blast
  then show False
  proof cases
    case a
    with assms show ?thesis by simp
  next
    case b
    then have "length fence_python \<le> length (butlast fence_python)"
      by (rule sublist_length_le)
    then show ?thesis by (simp add: fence_python_def)
  next
    case c
    show ?thesis
    proof (cases "xs2 = []")
      case True
      with c have "suffix fence_python pre" by simp
      with assms show ?thesis by auto
    next
      case False
      then have "last fence_python = last xs2" using c(1) by (metis last_appendR)
      moreover have "last xs2 \<in> set (butlast fence_python)"
        using False c(3) by (meson last_in_set set_mono_prefix subsetD)
      ultimately show ?thesis by (auto simp add: fence_python_def)
    qed
  qed
qed

lemma find_closing:
  assumes "\<not> sublist fence (body @ butlast fence)"
  shows "py_find (pre @ body @ fence @ post) fence (int (length pre)) =
           int (length pre + length body)"
  using find_at_append [OF assms, of post "length pre"]
  by (simp add: py_find_nat)

lemma find_open:
  assumes "\<not> sublist fence rest"
  shows "py_find (pre @ rest) fence (int (length pre)) = - 1"
proof -
  have "find_at fence rest (length pre) = None"
    using assms by (simp add: find_at_None)
  then show ?thesis by (simp add: py_find_nat)
qed

lemma find_first:
  assumes "\<not> sublist tag (pre @ butlast tag)"
  shows "py_find (pre @ tag @ rest) tag 0 = int (length pre)"
  using find_at_append [OF assms, of rest 0] by (simp add: py_find_0)

lemma strip_tagged_closed:
  assumes "\<not> str_contains pre fence_python"
    and "\<not> str_contains (body @ ''``'') fence"
  shows "strip_markdown (pre @ fence_python @ body @ fence @ post) = py_strip body"
proof -
  let ?code = "pre @ fence_python @ body @ fence @ post"
  have c: "str_contains ?code fence_python" by (simp add: str_contains_def)
  have s: "py_find ?code fence_python 0 = int (length pre)"
    using find_first [OF tag_overlap] assms(1) by (simp add: str_contains_def)
  have b: "\<not> sublist fence (body @ butlast fence)"
    using assms(2) by (simp add: str_contains_def fence_def)
  have l: "length fence_python = 9" by (simp add: fence_python_def)
  have e: "py_find ?code fence (int (length pre) + 9) = int (length pre + 9 + length body)"
    using find_closing [OF b, of "pre @ fence_python" post] by (simp add: l)
  have "slice ?code (int (length pre + 9)) (int (length pre + 9 + length body)) = body"
    unfolding slice_nat by (simp add: l)
  with c s e show ?thesis
    by (simp add: strip_markdown_def Let_def)
qed

lemma strip_tagged_open:
  assumes "\<not> str_contains pre fence_python"
    and "\<not> str_contains rest fence"
  shows "strip_markdown (pre @ fence_python @ rest) = py_strip rest"
proof -
  let ?code = "pre @ fence_python @ rest"
  have c: "str_contains ?code fence_python" by (simp add: str_contains_def)
  have s: "py_find ?code fence_python 0 = int (length pre)"
    using find_first [OF tag_overlap] assms(1) by (simp add: str_contains_def)
  have l: "length fence_python = 9" by (simp add: fence_python_def)
  have e: "py_find ?code fence (int (length pre) + 9) = - 1"
    using find_open [of rest "pre @ fence_python"] assms(2) by (simp add: l str_contains_def)
  have "slice_from ?code (int (length pre + 9)) = rest"
    unfolding slice_from_nat by (simp add: l)
  with c s e show ?thesis
    by (simp add: strip_markdown_def Let_def)
qed

lemma strip_generic_closed:
  assumes "\<not> str_contains (pre @ fence @ body @ fence @ post) fence_python"
    and "\<not> str_contains (pre @ ''``'') fence"
    and "\<not> str_contains (body @ ''``'') fence"
  shows "strip_markdown (pre @ fence @ body @ fence @ post) = py_strip body"
proof -
  let ?code = "pre @ fence @ body @ fence @ post"
  have c: "str_contains ?code fence" by (simp add: str_contains_def)
  have p: "\<not> sublist fence (pre @ butlast fence)"
    using assms(2) by (simp add: str_contains_def fence_def)
  have s: "py_find ?code fence 0 = int (length pre)"
    using find_first [OF p] by simp
  have b: "\<not> sublist fence (body @ butlast fence)"
    using assms(3) by (simp add: str_contains_def fence_def)
  have l: "length fence = 3" by (simp add: fence_def)
  have e: "py_find ?code fence (int (length pre) + 3) = int (length pre + 3 + length body)"
    using find_closing [OF b, of "pre @ fence" post] by (simp add: l)
  have "slice ?code (int (length pre + 3)) (int (length pre + 3 + length body)) = body"
    unfolding slice_nat by (simp add: l)
  with c s e assms(1) show ?thesis
    by (simp add: strip_markdown_def Let_def)
qed

lemma strip_generic_open:
  assumes "\<not> str_contains (pre @ fence @ rest) fence_python"
    and "\<not> str_contains (pre @ ''``'') fence"
    and "\<not> str_contains rest fence"
  shows "strip_markdown (pre @ fence @ rest) = py_strip rest"
proof -
  let ?code = "pre @ fence @ rest"
  have c: "str_contains ?code fence" by (simp add: str_contains_def)
  have p: "\<not> sublist fence (pre @ butlast fence)"
    using assms(2) by (simp add: str_contains_def fence_def)
  have s: "py_find ?code fence 0 = int (length pre)"
    using find_first [OF p] by simp
  have l: "length fence = 3" by (simp add: fence_def)
  have e: "py_find ?code fence (int (length pre) + 3) = - 1"
    using find_open [of rest "pre @ fence"] assms(3) by (simp add: l str_contains_def)
  have "slice_from ?code (int (length pre + 3)) = rest"
    unfolding slice_from_nat by (simp add: l)
  with c s e assms(1) show ?thesis
    by (simp add: strip_markdown_def Let_def)
qed

subsection \<open>Stripping and the indentation of a line\<close>

lemma py_strip_space: "isspace c \<Longrightarrow> py_strip (c # s) = py_strip s"
  by (simp add: py_strip_def)

lemma py_strip_indent:
  "py_strip (CHR '' '' # CHR '' '' # CHR '' '' # CHR '' '' # s) = py_strip s"
  by (simp add: py_strip_def isspace_def)

lemma dropWhile_rev_dropWhile:
  "dropWhile P (rev (dropWhile P (rev (dropWhile P s)))) = rev (dropWhile P (rev (dropWhile P s)))"
proof (cases "dropWhile P s")
  case Nil
  show ?thesis unfolding Nil by simp
next
  case (Cons a as)
  then have na: "\<not> P a" by (metis hd_dropWhile list.distinct(1) list.sel(1))
  have "rev (dropWhile P (rev (a # as))) = a # rev (dropWhile P (rev as))"
    using na by (simp add: dropWhile_append)
  with Cons na show ?thesis by simp
qed

lemma py_strip_idem: "py_strip (py_strip s) = py_strip s"
  unfolding py_strip_def dropWhile_rev_dropWhile by simp

lemma fix_line_strip: "py_strip (fix_line l) = py_strip l"
  by (simp add: fix_line_def py_strip_indent py_strip_idem)

lemma fix_line_indents:
  "py_strip l \<noteq> [] \<Longrightarrow> startswith (fix_line l) ''    '' \<or> startswith (fix_line l) [CHR 0x09]"
  by (simp add: fix_line_def startswith_def)

lemma fix_line_blank: "py_strip l = [] \<Longrightarrow> fix_line l = l"
  by (simp add: fix_line_def)

lemma fix_line_kept:
  "startswith l ''    '' \<or> startswith l [CHR 0x09] \<Longrightarrow> fix_line l = l"
  by (auto simp add: fix_line_def)

lemma reindent_lines:
  assumes "split_nl (strip_markdown code) = h # body"
    and "startswith (py_strip h) ''def ''"
  shows "split_nl (clean_llm_response code) = h # map fix_line body"
  using split_fix_indentation [of "strip_markdown code"] assms
  by (simp add: clean_llm_response_def)

lemma no_header_unchanged:
  assumes "\<not> startswith (py_strip (hd (split_nl (strip_markdown code)))) ''def ''"
  shows "clean_llm_response code = strip_markdown code"
  using assms by (simp add: clean_llm_response_def fix_indentation_def Let_def)

subsection \<open>The fence stripper of the evaluator\<close>

lemma lower_fence: "py_lower fence = fence" "py_lower fence_python = fence_python"
  by (simp_all add: py_lower_def lower_char_def fence_def fence_python_def)

lemma sublist_lower: "sublist sub s \<Longrightarrow> sublist (py_lower sub) (py_lower s)"
  unfolding py_lower_def by (rule map_mono_sublist)

lemma slice_lower: "slice (py_lower s) a b = py_lower (slice s a b)"
  by (simp add: slice_def clamp_index_def py_lower_def drop_map take_map)

lemma slice_from_lower: "slice_from (py_lower s) a = py_lower (slice_from s a)"
  by (simp add: slice_from_def clamp_index_def py_lower_def drop_map)

lemma extract_code_free:
  assumes "extract_code x = Inr y"
  shows "\<not> sublist fence y"
proof -
  have free: "\<not> sublist fence (py_strip t)" if "\<not> sublist fence (py_lower t)" for t
  proof
    assume "sublist fence (py_strip t)"
    then have "sublist fence t"
      using sublist_py_strip [of t] by (meson sublist_order.order_trans)
    then have "sublist (py_lower fence) (py_lower t)" by (rule sublist_lower)
    with that show False by (simp add: lower_fence)
  qed
  from assms have c: "str_contains x fence_python"
    by (auto simp: extract_code_def read_local_def split: if_splits)
  then have "sublist fence_python (py_lower x)"
    using sublist_lower [of fence_python x] by (simp add: str_contains_def lower_fence)
  then obtain p where p: "py_find (py_lower x) fence_python 0 = int p"
    using py_find_nonneg by blast
  have i: "int p + 9 = int (p + 9)" by simp
  let ?e = "py_find (py_lower x) fence (int (p + 9))"
  show ?thesis
  proof (cases "?e = - 1")
    case True
    with assms c p have y: "y = py_strip (slice_from x (int (p + 9)))"
      by (simp add: extract_code_def Let_def fence_python_def)
    from rest_free [OF fence_ne(1) True] show ?thesis
      unfolding y by (intro free) (simp add: slice_from_lower)
  next
    case False
    with assms c p have y: "y = py_strip (slice x (int (p + 9)) ?e)"
      by (simp add: extract_code_def Let_def fence_python_def)
    from interior_free [OF fence_ne(1) refl False] show ?thesis
      unfolding y by (intro free) (simp add: slice_lower)
  qed
qed

lemma extract_code_again:
  assumes "extract_code x = Inr y"
  shows "extract_code y = Inl NameError"
proof -
  have "\<not> sublist fence_python y"
    using extract_code_free [OF assms] fence_in_python by (meson sublist_order.order_trans)
  then show ?thesis by (simp add: extract_code_def read_local_def str_contains_def)
qed

section \<open>Facts about the scan of the lines\<close>

lemma inside_Nil [simp]: "\<not> inside []"
  by (simp add: inside_def)


lemma inside_from_Nil [simp]: "inside_from b [] = b"
  by (simp add: inside_from_def)





lemma flagged_Nil [simp]: "\<not> flagged b []"
  by (simp add: flagged_def)









section \<open>Facts about the labels\<close>

lemma label_inj: "label v = label w \<Longrightarrow> v = w"
  by (cases v; cases w) simp_all

section \<open>Facts about the function name\<close>



section \<open>The claims\<close>

text \<open>
  Claim C1, as amended. The classifier is total and returns exactly one of the eight
  messages of the decision table (its six rows name eight labels); it returns the
  message of \<open>FailedIncomplete\<close> whenever the tests failed; and it agrees with the
  table, row by row, on every input whose branch value is \<open>Full\<close> when there are no
  branches, which are the inputs the harness computes. On every input the code is the
  table with two changes: row 2 asks whether the number of branches is zero, and rows 3
  and 4 do not ask whether there are branches: for a branch value that is a number they
  test that number alone (the table with \<open>hasBranches\<close> true), and for one that is not
  a number they never give the low-branch labels.
\<close>

theorem classifier_table:
  "(\<exists>!v. interpret_coverage l bc nb t = label v) \<and>
   interpret_coverage l bc nb False = label FailedIncomplete \<and>
   (0 \<le> nb \<and> (nb = 0 \<longrightarrow> b = Full) \<longrightarrow>
      interpret_coverage l (branch_arg b) nb t = label (spec_classify t l b (0 < nb))) \<and>
   (num_of bc = Some p \<longrightarrow>
      interpret_coverage l bc nb t =
        label (if t \<and> l = 100 \<and> nb = 0 then PerfectCoverage
               else spec_classify t l (Pct p) True)) \<and>
   (num_of bc = None \<longrightarrow>
      interpret_coverage l bc nb t =
        label (if t \<and> l = 100 \<and> nb \<noteq> 0 then Excellent
               else spec_classify t l Full False))"
proof (intro conjI impI)
  have "\<exists>v. interpret_coverage l bc nb t = label v"
    unfolding interpret_coverage_def label.simps [symmetric]
    by (simp only: if_distrib [of "\<lambda>s. \<exists>v. s = label v"] if_bool_eq_conj) blast
  then show "\<exists>!v. interpret_coverage l bc nb t = label v"
    by (metis label_inj)
  show "interpret_coverage l bc nb False = label FailedIncomplete"
    by (simp add: interpret_coverage_def)
  show "interpret_coverage l (branch_arg b) nb t = label (spec_classify t l b (0 < nb))"
    if "0 \<le> nb \<and> (nb = 0 \<longrightarrow> b = Full)"
    using that by (cases b) (auto simp: interpret_coverage_def spec_classify_def)
  show "interpret_coverage l bc nb t =
      label (if t \<and> l = 100 \<and> nb = 0 then PerfectCoverage
             else spec_classify t l (Pct p) True)"
    if "num_of bc = Some p"
    using that by (auto simp: interpret_coverage_def spec_classify_def)
  show "interpret_coverage l bc nb t =
      label (if t \<and> l = 100 \<and> nb \<noteq> 0 then Excellent
             else spec_classify t l Full False)"
    if "num_of bc = None"
    using that by (auto simp: interpret_coverage_def spec_classify_def)
qed

theorem classifier_table_witness:
  "(0::int) \<le> 4 \<and>
   interpret_coverage 95 (branch_arg (Pct 50)) 4 True = label HighLineLowBranch \<and>
   interpret_coverage 100 (branch_arg Full) 0 True = label PerfectCoverage \<and>
   num_of (PyFloat 50) = Some 50 \<and>
   interpret_coverage 75 (PyFloat 50) 0 True = label GoodLineLowBranch \<and>
   interpret_coverage 95 (PyInt 50) 0 True = label HighLineLowBranch \<and>
   num_of (PyStr ''N/A'') = None \<and>
   interpret_coverage 95 (PyStr ''N/A'') 3 True = label Excellent \<and>
   interpret_coverage 100 (PyStr ''N/A'') 3 True = label Excellent"
  using classifier_table [of 95 "PyInt 0" 4 True "Pct 50" 0]
    classifier_table [of 100 "PyInt 0" 0 True Full 0]
    classifier_table [of 75 "PyFloat 50" 0 True Full 50]
    classifier_table [of 95 "PyInt 50" 0 True Full 50]
    classifier_table [of 95 "PyStr ''N/A''" 3 True Full 0]
    classifier_table [of 100 "PyStr ''N/A''" 3 True Full 0]
  by (simp add: spec_classify_def)

theorem classifier_table_counterexample:
  "interpret_coverage 95 (branch_arg (Pct 50)) 0 True = label HighLineLowBranch \<and>
   spec_classify True 95 (Pct 50) (0 < (0::int)) = Excellent"
  by (simp add: interpret_coverage_def spec_classify_def)

text \<open>
  Claim C2. \<^verbatim>\<open>run_tests\<close> reports a child that overruns 30 seconds as timed out,
  apart from a failing run; the two coverage runs start their child without a timeout,
  so a child that never exits is waited for without end and one that exits late is
  reported like any other run.
\<close>

theorem coverage_run_without_timeout:
  "test_apps_problem problem kind status Hangs report = None \<and>
   test_humaneval_problem problem kind status Hangs report = None \<and>
   test_apps_problem problem kind status (Exits 31 rc sout serr) report =
     Some (test_apps_result problem kind status rc report) \<and>
   run_tests True Hangs = Some (Error ''Test execution timed out'') \<and>
   run_tests True (Exits 31 rc sout serr) = Some (Error ''Test execution timed out'') \<and>
   run_tests True (Exits 30 1 sout serr) = Some (Results False sout serr 1)"
  by (simp add: test_apps_problem_def test_humaneval_problem_def run_tests_def
      subprocess_run_def)

text \<open>
  Claim C3, as amended. When the coverage report was never written, the result carries
  no statement or branch counts, gives the branch coverage as \<^verbatim>\<open>'N/A'\<close> and the
  interpretation as \<^verbatim>\<open>'Coverage data not generated'\<close>, which no run with a report
  gets; but it gives the line coverage as the number 0.
\<close>

theorem absent_coverage_record:
  "test_apps_result problem kind status rc None =
     Inr [(''problem'', PyStr problem), (''type'', PyStr kind), (''tests_passed'', PyStr status),
          (''line_coverage'', PyInt 0), (''branch_coverage'', PyStr ''N/A''),
          (''interpretation'', PyStr ''Coverage data not generated'')] \<and>
   test_humaneval_result problem kind status rc None =
     Inr [(''problem'', PyStr problem), (''type'', PyStr kind),
          (''tests_passed'', PyStr ''0/0 (Error)''),
          (''line_coverage'', PyInt 0), (''branch_coverage'', PyStr ''N/A''),
          (''interpretation'', PyStr ''Coverage data not generated'')] \<and>
   (case test_apps_result problem kind status rc (Some report) of
      Inl e \<Rightarrow> False
    | Inr d \<Rightarrow> map_of d ''interpretation'' \<noteq> Some (PyStr ''Coverage data not generated'') \<and>
               map_of d ''num_statements'' \<noteq> None \<and> map_of d ''num_branches'' \<noteq> None) \<and>
   (case test_humaneval_result problem kind status rc (Some report) of
      Inl e \<Rightarrow> False
    | Inr d \<Rightarrow> map_of d ''interpretation'' \<noteq> Some (PyStr ''Coverage data not generated'') \<and>
               map_of d ''num_statements'' \<noteq> None \<and> map_of d ''num_branches'' \<noteq> None)"
proof -
  have i: "interpret_coverage l b n t \<noteq> ''Coverage data not generated''" for l b n t
    by (simp add: interpret_coverage_def)
  show ?thesis
    by (simp add: test_apps_result_def test_humaneval_result_def coverage_result_def
        branch_coverage_def truediv_def Let_def i)
qed

theorem absent_coverage_counterexample:
  "test_apps_result ''problem_001'' ''APPS (Original)'' ''0/1'' 1 None =
     Inr [(''problem'', PyStr ''problem_001''), (''type'', PyStr ''APPS (Original)''),
          (''tests_passed'', PyStr ''0/1''),
          (''line_coverage'', PyInt 0), (''branch_coverage'', PyStr ''N/A''),
          (''interpretation'', PyStr ''Coverage data not generated'')]"
  by (simp add: test_apps_result_def coverage_result_def)

text \<open>
  Claim C4. The fence stage of \<^verbatim>\<open>clean_llm_response\<close> returns the stripped interior of
  the fence, and an unfenced text as it is; \<^verbatim>\<open>extract_code\<close> raises on the same
  inputs: a response with an untagged fence, and a response with no fence.
\<close>

theorem extract_code_untagged:
  "extract_code ''```\<newline>x = 1\<newline>```'' = Inl NameError \<and>
   extract_code ''x = 1'' = Inl NameError \<and>
   strip_markdown ''```\<newline>x = 1\<newline>```'' = ''x = 1'' \<and>
   strip_markdown ''x = 1'' = ''x = 1''"
  by code_simp

text \<open>
  The fence stage: with a fence tagged \<^verbatim>\<open>python\<close> it yields the interior of the first
  such fence, with no such fence the text after the first fence mark up to the next one
  (a tag other than \<^verbatim>\<open>python\<close> stays in front of it), with no closing fence the
  rest of the text, each stripped; with no fence the text itself. The fence
  \<open>''``''\<close> appended to a part says that no fence begins inside it.
\<close>

lemma strip_markdown_interior:
  "\<not> str_contains pre fence_python \<and> \<not> str_contains (body @ ''``'') fence \<longrightarrow>
     strip_markdown (pre @ fence_python @ body @ fence @ post) = py_strip body"
  "\<not> str_contains pre fence_python \<and> \<not> str_contains rest fence \<longrightarrow>
     strip_markdown (pre @ fence_python @ rest) = py_strip rest"
  "\<not> str_contains (pre @ fence @ body @ fence @ post) fence_python \<and>
   \<not> str_contains (pre @ ''``'') fence \<and> \<not> str_contains (body @ ''``'') fence \<longrightarrow>
     strip_markdown (pre @ fence @ body @ fence @ post) = py_strip body"
  "\<not> str_contains (pre @ fence @ rest) fence_python \<and>
   \<not> str_contains (pre @ ''``'') fence \<and> \<not> str_contains rest fence \<longrightarrow>
     strip_markdown (pre @ fence @ rest) = py_strip rest"
  "\<not> str_contains code fence \<longrightarrow> strip_markdown code = code"
  using strip_tagged_closed strip_tagged_open strip_generic_closed strip_generic_open
    strip_markdown_id [of code]
  by (auto simp: str_contains_def)

text \<open>
  Claim C5. Normalization is idempotent. \<^verbatim>\<open>clean_llm_response\<close> is: cleaning a
  cleaned response changes nothing. \<^verbatim>\<open>extract_code\<close> is not: whenever it returns a
  result, the result holds no fence, and applying \<^verbatim>\<open>extract_code\<close> to it raises.
\<close>

theorem normalization_twice:
  "clean_llm_response (clean_llm_response x) = clean_llm_response x \<and>
   (extract_code x = Inr y \<longrightarrow> extract_code y = Inl NameError)"
  using clean_idem extract_code_again by blast

theorem normalization_twice_witness:
  "extract_code ''```python\<newline>x = 1\<newline>```'' = Inr ''x = 1'' \<and>
   extract_code ''x = 1'' = Inl NameError \<and>
   clean_llm_response (clean_llm_response ''```python\<newline>x = 1\<newline>```'') =
     clean_llm_response ''```python\<newline>x = 1\<newline>```''"
proof -
  have a: "extract_code ''```python\<newline>x = 1\<newline>```'' = Inr ''x = 1''"
    by code_simp
  from normalization_twice [of "''```python\<newline>x = 1\<newline>```''" "''x = 1''"] a
  show ?thesis by simp
qed

text \<open>
  Claim C6. The branch percentage is the quotient of covered and total branches times
  100 when the total is positive; with no branches it is the constant 100 whatever the
  covered count is, which the classifier reads like a computed 100; the division is
  never reached with a zero divisor.
\<close>

theorem branch_coverage_guarded:
  "branch_coverage c n =
     Inr (if 0 < n then PyFloat (real_of_int c / real_of_int n * 100) else PyInt 100) \<and>
   branch_coverage c 0 = Inr (PyInt 100) \<and>
   branch_coverage c n \<noteq> Inl ZeroDivisionError \<and>
   interpret_coverage l (PyInt 100) nb t = interpret_coverage l (PyFloat 100) nb t"
  by (simp add: branch_coverage_def truediv_def interpret_coverage_def)

text \<open>
  Claim C7, as amended. When the first line of the text left by the fence stage is a
  function header (it starts with \<^verbatim>\<open>def\<close> once stripped), the result has the same
  lines in the same order: the header as it was, every blank line as it was, every line
  that began with four spaces or a tab as it was, and every other line stripped and
  indented by four spaces; so each line after the header that is not blank begins with
  one level of indentation and keeps its content. The test is on the first line, not on
  the first line that is not blank.
\<close>

theorem reindent_after_header:
  assumes "split_nl (strip_markdown code) = h # body"
    and "startswith (py_strip h) ''def ''"
  shows "split_nl (clean_llm_response code) = h # map fix_line body \<and>
    (\<forall>l. (py_strip l = [] \<longrightarrow> fix_line l = l) \<and>
         (startswith l ''    '' \<or> startswith l [CHR 0x09] \<longrightarrow> fix_line l = l) \<and>
         (py_strip l \<noteq> [] \<and> \<not> startswith l ''    '' \<and> \<not> startswith l [CHR 0x09] \<longrightarrow>
            fix_line l = ''    '' @ py_strip l) \<and>
         (py_strip l \<noteq> [] \<longrightarrow>
            (startswith (fix_line l) ''    '' \<or> startswith (fix_line l) [CHR 0x09]) \<and>
            py_strip (fix_line l) = py_strip l))"
proof -
  have "fix_line l = ''    '' @ py_strip l"
    if "py_strip l \<noteq> [] \<and> \<not> startswith l ''    '' \<and> \<not> startswith l [CHR 0x09]" for l
    using that by (simp add: fix_line_def)
  with reindent_lines [OF assms] fix_line_blank fix_line_kept fix_line_indents fix_line_strip
  show ?thesis by blast
qed

theorem reindent_after_header_witness:
  "split_nl (strip_markdown ''def f():\<newline>return 1\<newline>\<newline>    x\<newline>  y'') =
     ''def f():'' # [''return 1'', '''', ''    x'', ''  y''] \<and>
   startswith (py_strip ''def f():'') ''def '' \<and>
   split_nl (clean_llm_response ''def f():\<newline>return 1\<newline>\<newline>    x\<newline>  y'') =
     [''def f():'', ''    return 1'', '''', ''    x'', ''    y'']"
proof -
  have a: "split_nl (strip_markdown ''def f():\<newline>return 1\<newline>\<newline>    x\<newline>  y'') =
      ''def f():'' # [''return 1'', '''', ''    x'', ''  y'']"
    by (simp add: strip_markdown_def str_contains_def fence_def fence_python_def
        sublist_Cons_right)
  have b: "startswith (py_strip ''def f():'') ''def ''"
    by (simp add: py_strip_def isspace_def startswith_def)
  from reindent_after_header [OF a b] a b show ?thesis
    by (simp add: fix_line_def py_strip_def isspace_def startswith_def)
qed

theorem reindent_counterexample:
  "clean_llm_response ''\<newline>def f():\<newline>return 1'' = ''\<newline>def f():\<newline>return 1''"
  by (simp add: clean_llm_response_def fix_indentation_def strip_markdown_def
      str_contains_def fence_def fence_python_def sublist_Cons_right
      py_strip_def startswith_def)

text \<open>
  Claim C8. Every test case should begin from a fresh copy of the module's namespace.
  The test cases of one problem run in one process, and each begins by executing the
  module's code again in the namespace the module already has. That resets a name the
  module's code binds (the first candidate prints \<^verbatim>\<open>first\<close> in both test cases); a
  global that a call creates, and state kept outside the module, stay for the later
  test cases (the second and the third candidate print \<^verbatim>\<open>first\<close>, then
  \<^verbatim>\<open>again\<close>, where a fresh module prints \<^verbatim>\<open>first\<close> both times).
\<close>

theorem isolation_leak:
  "detect_function_based_solution seen_source \<and>
   extract_main_function_name seen_source = Some ''solve'' \<and>
   run_test_cases seen_candidate True [] [''1'', ''2''] new_process =
     [''first\<newline>'', ''again\<newline>''] \<and>
   map (fresh_output seen_candidate True []) [''1'', ''2''] =
     [''first\<newline>'', ''first\<newline>''] \<and>
   detect_function_based_solution calls_source \<and>
   run_test_cases calls_candidate True [] [''1'', ''2''] new_process =
     [''first\<newline>'', ''again\<newline>''] \<and>
   map (fresh_output calls_candidate True []) [''1'', ''2''] =
     [''first\<newline>'', ''first\<newline>''] \<and>
   detect_function_based_solution counter_source \<and>
   run_test_cases counter_candidate True [] [''1'', ''2''] new_process =
     [''first\<newline>'', ''first\<newline>'']"
proof -
  have d: "detect_function_based_solution seen_source \<and>
      extract_main_function_name seen_source = Some ''solve'' \<and>
      detect_function_based_solution calls_source \<and>
      detect_function_based_solution counter_source"
    by code_simp
  have s: "run_test_cases seen_candidate True [] [''1'', ''2''] new_process =
        [''first\<newline>'', ''again\<newline>''] \<and>
      map (fresh_output seen_candidate True []) [''1'', ''2''] =
        [''first\<newline>'', ''first\<newline>'']"
    by (simp add: fresh_output_def test_case_def seen_candidate_def import_solution_def
        importlib_reload_def new_process_def)
  have c: "run_test_cases calls_candidate True [] [''1'', ''2''] new_process =
        [''first\<newline>'', ''again\<newline>''] \<and>
      map (fresh_output calls_candidate True []) [''1'', ''2''] =
        [''first\<newline>'', ''first\<newline>'']"
    by (simp add: fresh_output_def test_case_def calls_candidate_def import_solution_def
        importlib_reload_def new_process_def Let_def)
  have k: "run_test_cases counter_candidate True [] [''1'', ''2''] new_process =
        [''first\<newline>'', ''first\<newline>'']"
    by (simp add: test_case_def counter_candidate_def import_solution_def
        importlib_reload_def new_process_def)
  from d s c k show ?thesis by blast
qed




text \<open>
  Claim C10. A response that contains a code fence but no fence tagged \<^verbatim>\<open>python\<close>
  makes \<^verbatim>\<open>extract_code\<close> raise a \<^verbatim>\<open>NameError\<close>: the branch for the untagged fence
  reads \<^verbatim>\<open>lower_llm_response\<close>, which only the tagged branch assigns, and nothing in
  the function catches the error.
\<close>

theorem extract_code_name_error:
  "str_contains s fence \<Longrightarrow> \<not> str_contains s fence_python \<Longrightarrow> extract_code s = Inl NameError"
  by (simp add: extract_code_def read_local_def)

theorem extract_code_name_error_witness:
  "str_contains ''```\<newline>x = 1\<newline>```'' fence \<and>
   \<not> str_contains ''```\<newline>x = 1\<newline>```'' fence_python \<and>
   extract_code ''```\<newline>x = 1\<newline>```'' = Inl NameError"
proof -
  have a: "str_contains ''```\<newline>x = 1\<newline>```'' fence"
    by (simp add: str_contains_def fence_def)
  have b: "\<not> str_contains ''```\<newline>x = 1\<newline>```'' fence_python"
    by (simp add: str_contains_def fence_python_def sublist_Cons_right)
  from a b extract_code_name_error [OF a b] show ?thesis by simp
qed

end
